theory Spec2Isabelle
  imports Main "HOL-Library.Multiset"
begin

section \<open>Variadic signature types of multipledispatch (variadic.py)\<close>

text \<open>
  The module is glue over three collaborators: the \<^verbatim>\<open>typing\<close> constructors
  \<^verbatim>\<open>Union[...]\<close> and \<^verbatim>\<open>Tuple[t, ...]\<close>, the subtype test \<^verbatim>\<open>pytypes.is_subtype\<close>,
  and the label function \<^verbatim>\<open>utils.typename\<close>. The subtype test and the label function
  are parameters of every definition that calls them; both may raise, so both return a
  sum. The two \<^verbatim>\<open>typing\<close> constructors are modelled with the behaviour of Python 3.7 and
  later: arguments are checked to be types, nested unions are flattened one level,
  duplicates are dropped keeping the first occurrence, and a union of one type is that type.
\<close>

subsection \<open>Python objects\<close>

text \<open>
  The objects the module handles: integers and tuples (values that are not types),
  ordinary classes (identified by name), \<^verbatim>\<open>typing.Union\<close> aliases with their argument
  tuple, \<^verbatim>\<open>typing.Tuple[t, ...]\<close> aliases, and the classes built by
  \<^verbatim>\<open>VariadicSignatureType(name, (), dict(variadic_type=...))\<close>, which carry the identity
  of the allocation, the class name and the attribute \<^verbatim>\<open>variadic_type\<close>.
\<close>

datatype pyobj =
    IntV int
  | TupleV "pyobj list"
  | ClassT string
  | UnionT "pyobj list"
  | TupleT pyobj
  | VariadicSig nat string pyobj

datatype error =
    ValueError string
  | TypeError string
  | AttributeError string
  | OtherError string

text \<open>\<^verbatim>\<open>isinstance(obj, VariadicSignatureType)\<close>, line 66.\<close>

fun isvariadic :: "pyobj \<Rightarrow> bool" where
  "isvariadic (VariadicSig i n t) = True"
| "isvariadic _ = False"

fun is_Union :: "pyobj \<Rightarrow> bool" where
  "is_Union (UnionT ts) = True"
| "is_Union _ = False"

fun get_Union_params :: "pyobj \<Rightarrow> pyobj list" where
  "get_Union_params (UnionT ts) = ts"
| "get_Union_params _ = []"

text \<open>
  Python's \<^verbatim>\<open>==\<close> on these objects. Classes compare by identity, union aliases by the
  set of their arguments, tuple aliases and tuples componentwise, and two variadic
  signature types by \<^verbatim>\<open>VariadicSignatureType.__eq__\<close> (lines 39-40): the other operand is
  variadic and the two \<^verbatim>\<open>variadic_type\<close> attributes are equal.
\<close>

fun py_eq :: "pyobj \<Rightarrow> pyobj \<Rightarrow> bool" where
  "py_eq (IntV a) (IntV b) = (a = b)"
| "py_eq (TupleV xs) (TupleV ys) = list_all2 py_eq xs ys"
| "py_eq (ClassT a) (ClassT b) = (a = b)"
| "py_eq (UnionT xs) (UnionT ys) =
     ((\<forall>x\<in>set xs. \<exists>y\<in>set ys. py_eq x y) \<and> (\<forall>y\<in>set ys. \<exists>x\<in>set xs. py_eq x y))"
| "py_eq (TupleT a) (TupleT b) = py_eq a b"
| "py_eq (VariadicSig i n t) other = (case other of VariadicSig j m u \<Rightarrow> py_eq t u | _ \<Rightarrow> False)"
| "py_eq _ _ = False"

text \<open>Object identity (\<^verbatim>\<open>is\<close>) of two variadic signature types: the same allocation.\<close>

fun py_is :: "pyobj \<Rightarrow> pyobj \<Rightarrow> bool" where
  "py_is (VariadicSig i n t) (VariadicSig j m u) = (i = j)"
| "py_is a b = (a = b)"

subsection \<open>The typing constructors\<close>

text \<open>What \<^verbatim>\<open>typing\<close> accepts as a type argument: anything but a plain value.\<close>

fun type_check :: "pyobj \<Rightarrow> bool" where
  "type_check (IntV n) = False"
| "type_check (TupleV xs) = False"
| "type_check _ = True"

fun flatten_unions :: "pyobj list \<Rightarrow> pyobj list" where
  "flatten_unions [] = []"
| "flatten_unions (UnionT ts # ps) = ts @ flatten_unions ps"
| "flatten_unions (p # ps) = p # flatten_unions ps"

text \<open>Keep the first occurrence of every argument, up to \<^verbatim>\<open>==\<close>.\<close>

fun remove_dups :: "pyobj list \<Rightarrow> pyobj list \<Rightarrow> pyobj list" where
  "remove_dups seen [] = []"
| "remove_dups seen (p # ps) =
     (if \<exists>s\<in>set seen. py_eq s p then remove_dups seen ps
      else p # remove_dups (p # seen) ps)"

definition typing_Union :: "pyobj list \<Rightarrow> error + pyobj" where
  "typing_Union params =
     (if params = [] then Inl (TypeError ''Cannot take a Union of no types.'')
      else if \<not> list_all type_check params
        then Inl (TypeError ''Union[arg, ...]: each arg must be a type.'')
      else (case remove_dups [] (flatten_unions params) of
              [p] \<Rightarrow> Inr p
            | ps \<Rightarrow> Inr (UnionT ps)))"

definition typing_Tuple :: "pyobj \<Rightarrow> error + pyobj" where
  "typing_Tuple t =
     (if type_check t then Inr (TupleT t)
      else Inl (TypeError ''Tuple[t, ...]: each t must be a type.''))"

subsection \<open>safe_subtype (lines 10-15)\<close>

type_synonym subtype_test = "pyobj \<Rightarrow> pyobj \<Rightarrow> error + bool"

text \<open>
  \<^verbatim>\<open>any(pytypes.is_subtype(tp, b) for tp in ...)\<close>: the generator is consumed from the
  left, stops at the first true answer, and an exception of the test ends it.
\<close>

fun any_subtype :: "subtype_test \<Rightarrow> pyobj list \<Rightarrow> pyobj \<Rightarrow> error + bool" where
  "any_subtype is_subtype [] b = Inr False"
| "any_subtype is_subtype (tp # tps) b =
     (case is_subtype tp b of
        Inl e \<Rightarrow> Inl e
      | Inr True \<Rightarrow> Inr True
      | Inr False \<Rightarrow> any_subtype is_subtype tps b)"

definition safe_subtype :: "subtype_test \<Rightarrow> pyobj \<Rightarrow> pyobj \<Rightarrow> error + bool" where
  "safe_subtype is_subtype a b =
     (if is_Union a then any_subtype is_subtype (get_Union_params a) b
      else is_subtype a b)"

subsection \<open>VariadicSignatureType.__subclasscheck__ (lines 20-23)\<close>

text \<open>The attribute \<^verbatim>\<open>variadic_type\<close>, which only a variadic signature type has.\<close>

fun variadic_type_of :: "pyobj \<Rightarrow> error + pyobj" where
  "variadic_type_of (VariadicSig i n t) = Inr t"
| "variadic_type_of _ = Inl (AttributeError ''variadic_type'')"

definition subclasscheck :: "subtype_test \<Rightarrow> pyobj \<Rightarrow> pyobj \<Rightarrow> error + bool" where
  "subclasscheck is_subtype self subclass =
     (case (if isvariadic subclass then variadic_type_of subclass else Inr subclass) of
        Inl e \<Rightarrow> Inl e
      | Inr other_type \<Rightarrow>
          (case typing_Tuple other_type of
             Inl e \<Rightarrow> Inl e
           | Inr sub_tuple \<Rightarrow>
               (case variadic_type_of self of
                  Inl e \<Rightarrow> Inl e
                | Inr self_type \<Rightarrow>
                    (case typing_Tuple self_type of
                       Inl e \<Rightarrow> Inl e
                     | Inr self_tuple \<Rightarrow> is_subtype sub_tuple self_tuple))))"

subsection \<open>VariadicSignatureType.__eq__ and __hash__ (lines 25-43)\<close>

definition variadic_eq :: "pyobj \<Rightarrow> pyobj \<Rightarrow> bool" where
  "variadic_eq self other =
     (isvariadic other \<and>
      (case (variadic_type_of self, variadic_type_of other) of
         (Inr t, Inr u) \<Rightarrow> py_eq t u
       | _ \<Rightarrow> False))"

text \<open>
  Python's \<^verbatim>\<open>hash\<close>. What the interpreter computes from addresses and bit patterns is
  a parameter: the hash of an object hashed by identity (a class, \<^verbatim>\<open>Ellipsis\<close>), of an
  integer, of a tuple from the hashes of its items, and the two steps of the hash of a
  frozenset, which combines the shuffled hashes of its elements by exclusive or and then
  mixes in their number.
\<close>

record hash_env =
  object_hash :: "string \<Rightarrow> int"
  int_hash :: "int \<Rightarrow> int"
  tuple_hash :: "int list \<Rightarrow> int"
  shuffle_bits :: "int \<Rightarrow> int"
  set_finish :: "nat \<Rightarrow> int \<Rightarrow> int"

definition frozenset_hash :: "hash_env \<Rightarrow> int list \<Rightarrow> int" where
  "frozenset_hash env hs =
     set_finish env (length hs) (fold (\<lambda>h acc. xor acc (shuffle_bits env h)) hs 0)"

text \<open>
  A union alias hashes the frozenset of its arguments, a tuple alias the pair of its
  origin and arguments, and a variadic signature type, by line 43, the pair
  \<^verbatim>\<open>(type(self), self.variadic_type)\<close>.
\<close>

function py_hash :: "hash_env \<Rightarrow> pyobj \<Rightarrow> int" where
  "py_hash env (IntV n) = int_hash env n"
| "py_hash env (TupleV xs) = tuple_hash env (map (py_hash env) xs)"
| "py_hash env (ClassT c) = object_hash env c"
| "py_hash env (UnionT ts) = frozenset_hash env (map (py_hash env) (remove_dups [] ts))"
| "py_hash env (TupleT t) =
     tuple_hash env [object_hash env ''tuple'',
                     tuple_hash env [py_hash env t, object_hash env ''Ellipsis'']]"
| "py_hash env (VariadicSig i n t) =
     tuple_hash env [object_hash env ''VariadicSignatureType'', py_hash env t]"
  by pat_completeness auto
termination
proof (relation "measure (\<lambda>(env, x). size x)", goal_cases)
  case 1
  show ?case by simp
next
  case (2 env xs x)
  then show ?case using size_list_estimation' [of x xs "size x" size] by simp
next
  case (3 env ts t)
  have sub: "set (remove_dups seen ps) \<subseteq> set ps" for seen ps
    by (induction ps arbitrary: seen) auto
  from 3 sub have "t \<in> set ts" by blast
  then show ?case using size_list_estimation' [of t ts "size t" size] by simp
next
  case 4
  show ?case by simp
next
  case 5
  show ?case by simp
qed

subsection \<open>VariadicSignatureMeta.__getitem__ (lines 74-85)\<close>

text \<open>\<^verbatim>\<open>type(obj)\<close>, and the truth value of an object.\<close>

fun py_type :: "pyobj \<Rightarrow> pyobj" where
  "py_type (IntV n) = ClassT ''int''"
| "py_type (TupleV xs) = ClassT ''tuple''"
| "py_type (ClassT c) = ClassT ''type''"
| "py_type (UnionT ts) = ClassT ''typing._GenericAlias''"
| "py_type (TupleT t) = ClassT ''typing._GenericAlias''"
| "py_type (VariadicSig i n t) = ClassT ''VariadicSignatureType''"

fun truthy :: "pyobj \<Rightarrow> bool" where
  "truthy (IntV n) = (n \<noteq> 0)"
| "truthy (TupleV xs) = (xs \<noteq> [])"
| "truthy _ = True"

text \<open>\<^verbatim>\<open>isinstance(obj, (type, tuple))\<close>: a class, or a tuple.\<close>

fun isinstance_type_or_tuple :: "pyobj \<Rightarrow> bool" where
  "isinstance_type_or_tuple (ClassT c) = True"
| "isinstance_type_or_tuple (VariadicSig i n t) = True"
| "isinstance_type_or_tuple (TupleV xs) = True"
| "isinstance_type_or_tuple _ = False"

definition getitem_message :: string where
  "getitem_message =
     ''Variadic types must be type or tuple of types (Variadic[int] or Variadic[(int, float)]''"

text \<open>The condition of line 75, under which line 76 raises.\<close>

definition getitem_rejects :: "pyobj \<Rightarrow> bool" where
  "getitem_rejects variadic_type =
     (\<not> (isinstance_type_or_tuple variadic_type \<or> truthy (py_type variadic_type)))"

text \<open>Lines 79-80: a spec that is not a tuple becomes a tuple of one.\<close>

fun as_tuple :: "pyobj \<Rightarrow> pyobj list" where
  "as_tuple (TupleV xs) = xs"
| "as_tuple v = [v]"

text \<open>
  \<^verbatim>\<open>Variadic[spec]\<close>. The label function \<^verbatim>\<open>typename\<close> is a parameter; it is called on
  the normalised tuple before \<^verbatim>\<open>typing.Union\<close> is, as the argument order of line 81 has
  it. The class built is a new object: its identity is the allocation counter, which the
  call returns advanced.
\<close>

definition getitem ::
  "(pyobj \<Rightarrow> error + string) \<Rightarrow> pyobj \<Rightarrow> nat \<Rightarrow> (error + pyobj) \<times> nat" where
  "getitem typename variadic_type next_id =
     (if getitem_rejects variadic_type then (Inl (ValueError getitem_message), next_id)
      else
        (case typename (TupleV (as_tuple variadic_type)) of
           Inl e \<Rightarrow> (Inl e, next_id)
         | Inr label \<Rightarrow>
             (case typing_Union (as_tuple variadic_type) of
                Inl e \<Rightarrow> (Inl e, next_id)
              | Inr u \<Rightarrow>
                  (Inr (VariadicSig next_id (''Variadic['' @ label @ '']'') u),
                   Suc next_id))))"

subsection \<open>Instances of the two parameters\<close>

text \<open>
  Modelled from the spec: \<^verbatim>\<open>utils.typename\<close> is not among the sources. The spec only
  says that the display label is derived deterministically from the member list and is
  used for diagnostics; this instance joins the names of the members and raises for a
  member that has no name.
\<close>

fun member_name :: "pyobj \<Rightarrow> error + string" where
  "member_name (ClassT c) = Inr c"
| "member_name (VariadicSig i n t) = Inr n"
| "member_name (UnionT ts) = Inr ''Union''"
| "member_name (TupleT t) = Inr ''Tuple''"
| "member_name _ = Inl (AttributeError ''__name__'')"

fun join_names :: "pyobj list \<Rightarrow> error + string" where
  "join_names [] = Inr []"
| "join_names [x] = member_name x"
| "join_names (x # xs) =
     (case member_name x of
        Inl e \<Rightarrow> Inl e
      | Inr n \<Rightarrow> (case join_names xs of Inl e \<Rightarrow> Inl e | Inr r \<Rightarrow> Inr (n @ '', '' @ r)))"

fun typename_model :: "pyobj \<Rightarrow> error + string" where
  "typename_model (TupleV [x]) = member_name x"
| "typename_model (TupleV xs) =
     (case join_names xs of Inl e \<Rightarrow> Inl e | Inr r \<Rightarrow> Inr (''('' @ r @ '')''))"
| "typename_model x = member_name x"

text \<open>
  An instance of the subtype test, following the rules \<^verbatim>\<open>pytypes.is_subtype\<close> applies to
  the types of this model: a union on the right is satisfied by one of its alternatives, a
  union on the left needs all of its alternatives to qualify, \<^verbatim>\<open>Tuple[a, ...]\<close> is
  covariant in its element type, and two classes are compared through the list of
  superclasses each class has (itself included).
\<close>

fun nominal_subtype :: "(string \<Rightarrow> string list) \<Rightarrow> pyobj \<Rightarrow> pyobj \<Rightarrow> bool" where
  "nominal_subtype mro (UnionT xs) b = (\<forall>x\<in>set xs. nominal_subtype mro x b)"
| "nominal_subtype mro (ClassT a) (UnionT ys) = (\<exists>y\<in>set ys. nominal_subtype mro (ClassT a) y)"
| "nominal_subtype mro (TupleT a) (UnionT ys) = (\<exists>y\<in>set ys. nominal_subtype mro (TupleT a) y)"
| "nominal_subtype mro (TupleT a) (TupleT b) = nominal_subtype mro a b"
| "nominal_subtype mro (ClassT a) (ClassT b) = (b \<in> set (mro a))"
| "nominal_subtype mro _ _ = False"

definition nominal_test :: "(string \<Rightarrow> string list) \<Rightarrow> subtype_test" where
  "nominal_test mro a b = Inr (nominal_subtype mro a b)"

text \<open>A hierarchy of unrelated classes: each class has itself and \<^verbatim>\<open>object\<close> above it.\<close>

definition flat_mro :: "string \<Rightarrow> string list" where
  "flat_mro c = (if c = ''object'' then [c] else [c, ''object''])"

text \<open>
  An instance of the hash parameters, after the shape of the interpreter's own: a
  multiplicative combination for tuples, and for frozensets a shuffle of each element hash
  and a final mix with the number of elements.
\<close>

definition sample_hash_env :: hash_env where
  "sample_hash_env =
     \<lparr> object_hash = (\<lambda>name. sum_list (map of_char name)),
       int_hash = (\<lambda>n. n),
       tuple_hash = (\<lambda>hs. fold (\<lambda>h acc. acc * 1000003 + h) hs 3430008),
       shuffle_bits = (\<lambda>h. (xor (xor h 89869747) (h * 65536)) * 3644798167),
       set_finish = (\<lambda>n h. (xor h ((int n + 1) * 1927868237)) * 69069 + 907133923) \<rparr>"

subsection \<open>Ordinary types and valid specs\<close>

text \<open>
  The types the claims range over: classes, union aliases as \<^verbatim>\<open>typing.Union\<close> builds them
  (not empty, no union directly inside a union) and tuple aliases over such types. A spec
  of the factory is valid when it is one such type or a non-empty tuple of them.
\<close>

fun ordinary_type :: "pyobj \<Rightarrow> bool" where
  "ordinary_type (ClassT c) = True"
| "ordinary_type (UnionT ts) = (ts \<noteq> [] \<and> (\<forall>t\<in>set ts. ordinary_type t \<and> \<not> is_Union t))"
| "ordinary_type (TupleT t) = ordinary_type t"
| "ordinary_type _ = False"

fun valid_spec :: "pyobj \<Rightarrow> bool" where
  "valid_spec (TupleV ts) = (ts \<noteq> [] \<and> list_all ordinary_type ts)"
| "valid_spec t = ordinary_type t"

text \<open>A list without two objects that are equal under \<^verbatim>\<open>==\<close>, and two lists that hold the
  same objects up to \<^verbatim>\<open>==\<close>.\<close>

fun distinct_eq :: "pyobj list \<Rightarrow> bool" where
  "distinct_eq [] = True"
| "distinct_eq (x # xs) = ((\<forall>y\<in>set xs. \<not> py_eq x y) \<and> distinct_eq xs)"

definition same_members :: "pyobj list \<Rightarrow> pyobj list \<Rightarrow> bool" where
  "same_members xs ys =
     ((\<forall>x\<in>set xs. \<exists>y\<in>set ys. py_eq x y) \<and> (\<forall>y\<in>set ys. \<exists>x\<in>set xs. py_eq x y))"

section \<open>Properties\<close>

subsection \<open>Equality of objects is an equivalence\<close>

lemma py_eq_refl: "py_eq x x"
  by (induction x) (auto simp: list_all2_same)

lemma list_all2_flip_on:
  assumes "list_all2 P xs ys"
    and "\<And>x y. x \<in> set xs \<Longrightarrow> P x y \<Longrightarrow> P y x"
  shows "list_all2 P ys xs"
  using assms by (induction xs ys rule: list_all2_induct) auto

lemma py_eq_sym: "py_eq x y \<Longrightarrow> py_eq y x"
proof (induction x arbitrary: y)
  case (IntV a)
  then show ?case by (cases y) auto
next
  case (TupleV xs)
  then show ?case by (cases y) (auto intro: list_all2_flip_on)
next
  case (ClassT c)
  then show ?case by (cases y) auto
next
  case (UnionT xs)
  then show ?case by (cases y) (auto; blast)+
next
  case (TupleT t)
  then show ?case by (cases y) auto
next
  case (VariadicSig i n t)
  then show ?case by (cases y) auto
qed

lemma list_all2_trans_on:
  assumes "list_all2 P xs ys" and "list_all2 P ys zs"
    and "\<And>x y z. x \<in> set xs \<Longrightarrow> P x y \<Longrightarrow> P y z \<Longrightarrow> P x z"
  shows "list_all2 P xs zs"
  using assms
proof (induction xs ys arbitrary: zs rule: list_all2_induct)
  case Nil
  then show ?case by simp
next
  case (Cons x xs y ys)
  then show ?case by (cases zs) auto
qed

lemma py_eq_trans: "py_eq x y \<Longrightarrow> py_eq y z \<Longrightarrow> py_eq x z"
proof (induction x arbitrary: y z)
  case (IntV a)
  then show ?case by (cases y; cases z) auto
next
  case (TupleV xs)
  then show ?case by (cases y; cases z) (auto intro: list_all2_trans_on)
next
  case (ClassT c)
  then show ?case by (cases y; cases z) auto
next
  case (UnionT xs)
  show ?case
  proof (cases y)
    case yu: (UnionT ys)
    show ?thesis
    proof (cases z)
      case zu: (UnionT zs)
      have a: "\<forall>x\<in>set xs. \<exists>y\<in>set ys. py_eq x y" and a': "\<forall>y\<in>set ys. \<exists>x\<in>set xs. py_eq x y"
        using UnionT.prems(1) yu by auto
      have b: "\<forall>y\<in>set ys. \<exists>z\<in>set zs. py_eq y z" and b': "\<forall>z\<in>set zs. \<exists>y\<in>set ys. py_eq y z"
        using UnionT.prems(2) yu zu by auto
      have 1: "\<forall>x\<in>set xs. \<exists>z\<in>set zs. py_eq x z"
        using a b UnionT.IH by blast
      have 2: "\<forall>z\<in>set zs. \<exists>x\<in>set xs. py_eq x z"
        using a' b' UnionT.IH by blast
      show ?thesis using 1 2 zu by simp
    qed (use UnionT.prems yu in auto)
  qed (use UnionT.prems in auto)
next
  case (TupleT t)
  then show ?case by (cases y; cases z) auto
next
  case (VariadicSig i n t)
  then show ?case by (cases y; cases z) auto
qed

subsection \<open>The guard of the factory\<close>

lemma getitem_never_rejects: "getitem_rejects v = False"
  by (cases v) (simp_all add: getitem_rejects_def)

lemma typing_Union_42: "typing_Union [IntV 42] = Inl (TypeError ''Union[arg, ...]: each arg must be a type.'')"
  by (simp add: typing_Union_def)

text \<open>
  C1. The spec asks that \<^verbatim>\<open>Variadic[42]\<close> fail with the error whose message names the two
  accepted forms. The condition of line 75 ends in \<^verbatim>\<open>or type(variadic_type)\<close>, which is
  true of every object, so line 76 is never reached: at 42 the call goes on to the label
  function and to \<^verbatim>\<open>typing.Union\<close>, and what it raises is their error, not the
  \<^verbatim>\<open>ValueError\<close> of the guard.
\<close>

theorem getitem_42_no_ValueError:
  "getitem_rejects (IntV 42) = False \<and>
   getitem typename (IntV 42) next_id =
     (case typename (TupleV [IntV 42]) of
        Inl e \<Rightarrow> (Inl e, next_id)
      | Inr label \<Rightarrow> (Inl (TypeError ''Union[arg, ...]: each arg must be a type.''), next_id))"
proof -
  have g: "getitem_rejects (IntV 42) = False" by (simp add: getitem_rejects_def)
  show ?thesis unfolding getitem_def g by (simp add: typing_Union_42 split: sum.splits)
qed

subsection \<open>safe_subtype\<close>

lemma any_subtype_answers:
  "\<forall>t\<in>set ts. \<exists>r. is_subtype t c = Inr r \<Longrightarrow>
   any_subtype is_subtype ts c = Inr (\<exists>t\<in>set ts. is_subtype t c = Inr True)"
proof (induction ts)
  case Nil
  show ?case by simp
next
  case (Cons t ts)
  from Cons.prems obtain r where r: "is_subtype t c = Inr r" by auto
  from Cons have ih: "any_subtype is_subtype ts c = Inr (\<exists>t\<in>set ts. is_subtype t c = Inr True)"
    by simp
  show ?case using r ih by (cases r) simp_all
qed


lemma safe_subtype_not_Union: "\<not> is_Union a \<Longrightarrow> safe_subtype is_subtype a c = is_subtype a c"
  by (simp add: safe_subtype_def)


text \<open>
  C2. For a union whose alternatives are not unions themselves (as \<^verbatim>\<open>typing.Union\<close>
  builds them) and on whose alternatives the underlying test answers, \<^verbatim>\<open>safe_subtype\<close>
  returns true exactly when it holds for at least one alternative; for a left argument
  that is not a union it is the underlying test unchanged.
\<close>

theorem safe_subtype_existential:
  "(is_Union a \<and> (\<forall>t\<in>set (get_Union_params a). \<not> is_Union t \<and> (\<exists>r. is_subtype t c = Inr r))
      \<longrightarrow> safe_subtype is_subtype a c =
            Inr (\<exists>t\<in>set (get_Union_params a). safe_subtype is_subtype t c = Inr True))
   \<and> (\<not> is_Union a \<longrightarrow> safe_subtype is_subtype a c = is_subtype a c)"
proof (intro conjI impI)
  assume h: "is_Union a \<and>
    (\<forall>t\<in>set (get_Union_params a). \<not> is_Union t \<and> (\<exists>r. is_subtype t c = Inr r))"
  let ?ts = "get_Union_params a"
  from h have ans: "\<forall>t\<in>set ?ts. \<exists>r. is_subtype t c = Inr r" by simp
  from h have same: "\<And>t. t \<in> set ?ts \<Longrightarrow> safe_subtype is_subtype t c = is_subtype t c"
    by (simp add: safe_subtype_not_Union)
  have "safe_subtype is_subtype a c = any_subtype is_subtype ?ts c"
    using h by (simp add: safe_subtype_def)
  also have "\<dots> = Inr (\<exists>t\<in>set ?ts. is_subtype t c = Inr True)"
    using ans by (rule any_subtype_answers)
  also have "(\<exists>t\<in>set ?ts. is_subtype t c = Inr True) =
             (\<exists>t\<in>set ?ts. safe_subtype is_subtype t c = Inr True)"
    using same by simp
  finally show "safe_subtype is_subtype a c =
            Inr (\<exists>t\<in>set ?ts. safe_subtype is_subtype t c = Inr True)" .
next
  assume "\<not> is_Union a"
  then show "safe_subtype is_subtype a c = is_subtype a c" by (rule safe_subtype_not_Union)
qed

lemma nominal_test_class:
  "nominal_test mro (ClassT a) (ClassT b) = Inr (b \<in> set (mro a))"
  by (simp add: nominal_test_def)

theorem safe_subtype_existential_witness:
  "safe_subtype (nominal_test flat_mro) (UnionT [ClassT ''int'', ClassT ''str'']) (ClassT ''str'') = Inr True
   \<and> safe_subtype (nominal_test flat_mro) (UnionT [ClassT ''int'', ClassT ''str'']) (ClassT ''float'') = Inr False
   \<and> safe_subtype (nominal_test flat_mro) (ClassT ''str'') (ClassT ''str'') = Inr True"
proof -
  let ?u = "UnionT [ClassT ''int'', ClassT ''str'']"
  let ?T = "nominal_test flat_mro"
  have h: "is_Union ?u \<and>
      (\<forall>t\<in>set (get_Union_params ?u). \<not> is_Union t \<and> (\<exists>r. ?T t c = Inr r))" for c
    by (simp add: nominal_test_def)
  have e: "safe_subtype ?T (ClassT a) (ClassT b) = Inr (b \<in> set (flat_mro a))" for a b
    using safe_subtype_existential [of "ClassT a" ?T "ClassT b"]
    by (simp add: nominal_test_class)
  have u: "safe_subtype ?T ?u c =
      Inr (\<exists>t\<in>set (get_Union_params ?u). safe_subtype ?T t c = Inr True)" for c
    using safe_subtype_existential [of ?u ?T c] h [of c] by blast
  have 1: "safe_subtype ?T ?u (ClassT ''str'') = Inr True"
    unfolding u by (simp add: e flat_mro_def)
  have 2: "safe_subtype ?T ?u (ClassT ''float'') = Inr False"
    unfolding u by (simp add: e flat_mro_def)
  have 3: "safe_subtype ?T (ClassT ''str'') (ClassT ''str'') = Inr True"
    by (simp add: e flat_mro_def)
  show ?thesis using 1 2 3 by blast
qed

subsection \<open>The factory succeeds on valid specs\<close>

lemma ordinary_type_check: "ordinary_type t \<Longrightarrow> type_check t"
  by (cases t) simp_all

lemma ordinary_not_variadic: "ordinary_type t \<Longrightarrow> \<not> isvariadic t"
  by (cases t) simp_all

lemma remove_dups_subset: "set (remove_dups seen ps) \<subseteq> set ps"
  by (induction ps arbitrary: seen) auto

lemma remove_dups_nonempty: "ps \<noteq> [] \<Longrightarrow> remove_dups [] ps \<noteq> []"
  by (cases ps) simp_all

lemma flatten_unions_ordinary:
  "list_all ordinary_type ps \<Longrightarrow> \<forall>t\<in>set (flatten_unions ps). ordinary_type t \<and> \<not> is_Union t"
  by (induction ps rule: flatten_unions.induct) auto

lemma flatten_unions_nonempty:
  "list_all ordinary_type ps \<Longrightarrow> ps \<noteq> [] \<Longrightarrow> flatten_unions ps \<noteq> []"
  by (induction ps rule: flatten_unions.induct) auto

lemma as_tuple_valid:
  "valid_spec spec \<Longrightarrow> as_tuple spec \<noteq> [] \<and> list_all ordinary_type (as_tuple spec)"
  by (cases spec) auto

lemma typing_Union_ordinary:
  assumes "ps \<noteq> []" and "list_all ordinary_type ps"
  shows "\<exists>u. typing_Union ps = Inr u \<and> ordinary_type u"
proof -
  let ?d = "remove_dups [] (flatten_unions ps)"
  have tc: "list_all type_check ps"
    using assms(2) by (simp add: list_all_iff ordinary_type_check)
  have mem: "\<forall>t\<in>set ?d. ordinary_type t \<and> \<not> is_Union t"
    using flatten_unions_ordinary [OF assms(2)] remove_dups_subset by blast
  have ne: "?d \<noteq> []"
    using flatten_unions_nonempty [OF assms(2,1)] by (rule remove_dups_nonempty)
  show ?thesis
  proof (cases ?d)
    case Nil
    with ne show ?thesis by simp
  next
    case (Cons p rest)
    show ?thesis
    proof (cases rest)
      case Nil
      with Cons mem assms(1) tc show ?thesis by (simp add: typing_Union_def)
    next
      case (Cons q rest')
      with \<open>?d = p # rest\<close> mem assms(1) tc show ?thesis by (simp add: typing_Union_def)
    qed
  qed
qed

lemma getitem_succeeds:
  assumes "valid_spec spec" and "typename (TupleV (as_tuple spec)) = Inr label"
  shows "\<exists>n u. getitem typename spec next_id = (Inr (VariadicSig next_id n u), Suc next_id)
           \<and> typing_Union (as_tuple spec) = Inr u \<and> ordinary_type u"
proof -
  from as_tuple_valid [OF assms(1)] typing_Union_ordinary
  obtain u where u: "typing_Union (as_tuple spec) = Inr u" "ordinary_type u" by blast
  show ?thesis using u assms(2) by (simp add: getitem_def getitem_never_rejects)
qed

lemma getitem_result_variadic:
  "getitem typename spec next_id = (Inr p, k) \<Longrightarrow> \<exists>n u. p = VariadicSig next_id n u \<and> k = Suc next_id"
  by (auto simp: getitem_def split: if_splits sum.splits)

subsection \<open>isvariadic\<close>

lemma typename_model_int: "typename_model (TupleV [ClassT ''int'']) = Inr ''int''"
  by simp

lemma typing_Union_int: "typing_Union [ClassT ''int''] = Inr (ClassT ''int'')"
  by (simp add: typing_Union_def)

lemma getitem_int:
  "getitem typename_model (ClassT ''int'') n = (Inr (VariadicSig n ''Variadic[int]'' (ClassT ''int'')), Suc n)"
  by (simp add: getitem_def getitem_never_rejects typing_Union_int)

text \<open>
  C7. \<^verbatim>\<open>isvariadic\<close> is a total test: every object the factory returns is variadic (and on
  a valid spec, with a label function that answers, the factory does return one), and no
  ordinary type and no plain value is.
\<close>

theorem isvariadic_exact:
  "(valid_spec spec \<and> typename (TupleV (as_tuple spec)) = Inr label \<longrightarrow>
      (\<exists>p k. getitem typename spec next_id = (Inr p, k) \<and> isvariadic p))
   \<and> (getitem typename spec next_id = (Inr q, k') \<longrightarrow> isvariadic q)
   \<and> (ordinary_type t \<longrightarrow> \<not> isvariadic t)
   \<and> \<not> isvariadic (IntV i) \<and> \<not> isvariadic (TupleV xs)"
proof (intro conjI impI)
  assume "valid_spec spec \<and> typename (TupleV (as_tuple spec)) = Inr label"
  then obtain n u where
    "getitem typename spec next_id = (Inr (VariadicSig next_id n u), Suc next_id)"
    using getitem_succeeds [of spec typename label next_id] by blast
  then show "\<exists>p k. getitem typename spec next_id = (Inr p, k) \<and> isvariadic p" by simp
next
  assume "getitem typename spec next_id = (Inr q, k')"
  then show "isvariadic q" using getitem_result_variadic by fastforce
next
  assume "ordinary_type t"
  then show "\<not> isvariadic t" by (rule ordinary_not_variadic)
qed simp_all

theorem isvariadic_exact_witness:
  "getitem typename_model (ClassT ''int'') 0 = (Inr (VariadicSig 0 ''Variadic[int]'' (ClassT ''int'')), 1)
   \<and> isvariadic (VariadicSig 0 ''Variadic[int]'' (ClassT ''int''))
   \<and> ordinary_type (ClassT ''int'') \<and> \<not> isvariadic (ClassT ''int'')"
  using isvariadic_exact [of "ClassT ''int''" typename_model "''int''" 0
      "VariadicSig 0 ''Variadic[int]'' (ClassT ''int'')" 1 "ClassT ''int''"]
    getitem_int [of 0]
  by simp

subsection \<open>The subclass check\<close>

lemma subclasscheck_ordinary:
  "type_check S \<Longrightarrow> ordinary_type c \<Longrightarrow>
   subclasscheck is_subtype (VariadicSig i n S) c = is_subtype (TupleT c) (TupleT S)"
  by (simp add: subclasscheck_def typing_Tuple_def ordinary_not_variadic ordinary_type_check)

lemma subclasscheck_variadic:
  "type_check S \<Longrightarrow> type_check C \<Longrightarrow>
   subclasscheck is_subtype (VariadicSig i n S) (VariadicSig j m C) = is_subtype (TupleT C) (TupleT S)"
  by (simp add: subclasscheck_def typing_Tuple_def)

lemma typing_Union_int_str:
  "typing_Union [ClassT ''int'', ClassT ''str''] = Inr (UnionT [ClassT ''int'', ClassT ''str''])"
  by (simp add: typing_Union_def)

lemma getitem_int_str:
  "getitem typename_model (TupleV [ClassT ''int'', ClassT ''str'']) n =
     (Inr (VariadicSig n ''Variadic[(int, str)]'' (UnionT [ClassT ''int'', ClassT ''str''])), Suc n)"
  by (simp add: getitem_def getitem_never_rejects typing_Union_int_str)

text \<open>
  C3, as the code has it. For an ordinary candidate type the check of a pattern with
  allowed type \<open>S\<close> is exactly the answer of the underlying subtype test on
  \<^verbatim>\<open>Tuple[candidate, ...]\<close> and \<^verbatim>\<open>Tuple[S, ...]\<close>: line 23 calls \<^verbatim>\<open>pytypes.is_subtype\<close>
  itself, and \<^verbatim>\<open>safe_subtype\<close> takes no part in it.
\<close>

theorem subclasscheck_ordinary_candidate:
  "valid_spec spec \<and> typename (TupleV (as_tuple spec)) = Inr label \<and> ordinary_type candidate \<longrightarrow>
     (\<exists>P k S. getitem typename spec next_id = (Inr P, k) \<and> variadic_type_of P = Inr S \<and>
        subclasscheck is_subtype P candidate = is_subtype (TupleT candidate) (TupleT S))"
proof
  assume h: "valid_spec spec \<and> typename (TupleV (as_tuple spec)) = Inr label \<and> ordinary_type candidate"
  then obtain n u where
    g: "getitem typename spec next_id = (Inr (VariadicSig next_id n u), Suc next_id)"
    and u: "ordinary_type u"
    using getitem_succeeds [of spec typename label next_id] by blast
  have "subclasscheck is_subtype (VariadicSig next_id n u) candidate =
        is_subtype (TupleT candidate) (TupleT u)"
    using u h by (simp add: subclasscheck_ordinary ordinary_type_check)
  with g show "\<exists>P k S. getitem typename spec next_id = (Inr P, k) \<and> variadic_type_of P = Inr S \<and>
        subclasscheck is_subtype P candidate = is_subtype (TupleT candidate) (TupleT S)"
    by simp
qed

theorem subclasscheck_ordinary_candidate_witness:
  "subclasscheck (nominal_test flat_mro)
     (VariadicSig 0 ''Variadic[(int, str)]'' (UnionT [ClassT ''int'', ClassT ''str'']))
     (ClassT ''str'') =
   nominal_test flat_mro (TupleT (ClassT ''str'')) (TupleT (UnionT [ClassT ''int'', ClassT ''str'']))"
  using subclasscheck_ordinary_candidate [of "TupleV [ClassT ''int'', ClassT ''str'']"
      typename_model "''(int, str)''" "ClassT ''str''" 0 "nominal_test flat_mro"]
    getitem_int_str [of 0]
  by auto

text \<open>
  C3 as stated fails: the claim has a union candidate accepted as soon as one of its
  alternatives is admitted. With the pattern \<^verbatim>\<open>Variadic[(int, str)]\<close> the alternative
  \<^verbatim>\<open>int\<close> of the candidate \<^verbatim>\<open>Union[int, float]\<close> is admitted, and \<^verbatim>\<open>safe_subtype\<close> accepts
  the candidate against the allowed union, but the subclass check, which compares the two
  tuple aliases, rejects it.
\<close>

theorem subclasscheck_union_candidate_counterexample:
  "getitem typename_model (TupleV [ClassT ''int'', ClassT ''str'']) 0 =
     (Inr (VariadicSig 0 ''Variadic[(int, str)]'' (UnionT [ClassT ''int'', ClassT ''str''])), 1)
   \<and> subclasscheck (nominal_test flat_mro)
        (VariadicSig 0 ''Variadic[(int, str)]'' (UnionT [ClassT ''int'', ClassT ''str'']))
        (ClassT ''int'') = Inr True
   \<and> safe_subtype (nominal_test flat_mro) (UnionT [ClassT ''int'', ClassT ''float''])
        (UnionT [ClassT ''int'', ClassT ''str'']) = Inr True
   \<and> subclasscheck (nominal_test flat_mro)
        (VariadicSig 0 ''Variadic[(int, str)]'' (UnionT [ClassT ''int'', ClassT ''str'']))
        (UnionT [ClassT ''int'', ClassT ''float'']) = Inr False"
proof -
  have 1: "subclasscheck (nominal_test flat_mro)
        (VariadicSig 0 ''Variadic[(int, str)]'' (UnionT [ClassT ''int'', ClassT ''str'']))
        (ClassT ''int'') = Inr True"
    by (simp add: subclasscheck_ordinary nominal_test_def flat_mro_def)
  have 2: "safe_subtype (nominal_test flat_mro) (UnionT [ClassT ''int'', ClassT ''float''])
        (UnionT [ClassT ''int'', ClassT ''str'']) = Inr True"
    by (simp add: safe_subtype_def nominal_test_def flat_mro_def)
  have 3: "subclasscheck (nominal_test flat_mro)
        (VariadicSig 0 ''Variadic[(int, str)]'' (UnionT [ClassT ''int'', ClassT ''str'']))
        (UnionT [ClassT ''int'', ClassT ''float'']) = Inr False"
    by (simp add: subclasscheck_ordinary nominal_test_def flat_mro_def)
  show ?thesis using getitem_int_str [of 0] 1 2 3 by simp
qed

lemma nominal_subtype_refl:
  assumes "\<forall>c. c \<in> set (mro c)"
  shows "ordinary_type t \<Longrightarrow> nominal_subtype mro t t"
proof (induction t)
  case (UnionT ts)
  have "nominal_subtype mro x (UnionT ts)" if "x \<in> set ts" for x
  proof -
    from that UnionT.prems have o: "ordinary_type x" "\<not> is_Union x" by auto
    with that UnionT.IH have r: "nominal_subtype mro x x" by blast
    show ?thesis
    proof (cases x)
      case (ClassT c)
      have "\<exists>y\<in>set ts. nominal_subtype mro (ClassT c) y" using that r ClassT by blast
      then show ?thesis using ClassT by simp
    next
      case (TupleT e)
      have "\<exists>y\<in>set ts. nominal_subtype mro (TupleT e) y" using that r TupleT by blast
      then show ?thesis using TupleT by simp
    qed (use o in simp_all)
  qed
  then show ?case by simp
qed (use assms in auto)

lemma flat_mro_refl: "\<forall>c. c \<in> set (flat_mro c)"
  by (simp add: flat_mro_def)

lemma typing_Union_two_classes:
  "typing_Union [ClassT i, ClassT s] =
     Inr (if i = s then ClassT i else UnionT [ClassT i, ClassT s])"
  by (simp add: typing_Union_def)

text \<open>
  C8. With two classes \<open>i\<close> and \<open>s\<close> and a class \<open>f\<close> that has neither of them among its
  superclasses, the pattern \<^verbatim>\<open>Variadic[(i, s)]\<close> admits \<open>i\<close> and \<open>s\<close> and rejects \<open>f\<close>, the
  underlying test being the nominal one over the class hierarchy.
\<close>

theorem subclasscheck_int_str_float:
  "typename (TupleV [ClassT i, ClassT s]) = Inr label \<and>
   i \<in> set (mro i) \<and> s \<in> set (mro s) \<and> i \<notin> set (mro f) \<and> s \<notin> set (mro f) \<longrightarrow>
   (\<exists>P k. getitem typename (TupleV [ClassT i, ClassT s]) next_id = (Inr P, k)
      \<and> subclasscheck (nominal_test mro) P (ClassT i) = Inr True
      \<and> subclasscheck (nominal_test mro) P (ClassT s) = Inr True
      \<and> subclasscheck (nominal_test mro) P (ClassT f) = Inr False)"
proof
  assume h: "typename (TupleV [ClassT i, ClassT s]) = Inr label \<and>
   i \<in> set (mro i) \<and> s \<in> set (mro s) \<and> i \<notin> set (mro f) \<and> s \<notin> set (mro f)"
  let ?S = "if i = s then ClassT i else UnionT [ClassT i, ClassT s]"
  let ?P = "VariadicSig next_id (''Variadic['' @ label @ '']'') ?S"
  have g: "getitem typename (TupleV [ClassT i, ClassT s]) next_id = (Inr ?P, Suc next_id)"
    using h by (simp add: getitem_def getitem_never_rejects typing_Union_two_classes)
  have tc: "type_check ?S" by simp
  have 1: "subclasscheck (nominal_test mro) ?P (ClassT i) = Inr True"
    using h by (simp add: subclasscheck_ordinary [OF tc] nominal_test_def)
  have 2: "subclasscheck (nominal_test mro) ?P (ClassT s) = Inr True"
    using h by (simp add: subclasscheck_ordinary [OF tc] nominal_test_def)
  have 3: "subclasscheck (nominal_test mro) ?P (ClassT f) = Inr False"
    using h by (simp add: subclasscheck_ordinary [OF tc] nominal_test_def)
  show "\<exists>P k. getitem typename (TupleV [ClassT i, ClassT s]) next_id = (Inr P, k)
      \<and> subclasscheck (nominal_test mro) P (ClassT i) = Inr True
      \<and> subclasscheck (nominal_test mro) P (ClassT s) = Inr True
      \<and> subclasscheck (nominal_test mro) P (ClassT f) = Inr False"
    using g 1 2 3 by blast
qed

theorem subclasscheck_int_str_float_witness:
  "subclasscheck (nominal_test flat_mro)
     (VariadicSig 0 ''Variadic[(int, str)]'' (UnionT [ClassT ''int'', ClassT ''str''])) (ClassT ''int'') = Inr True
   \<and> subclasscheck (nominal_test flat_mro)
     (VariadicSig 0 ''Variadic[(int, str)]'' (UnionT [ClassT ''int'', ClassT ''str''])) (ClassT ''str'') = Inr True
   \<and> subclasscheck (nominal_test flat_mro)
     (VariadicSig 0 ''Variadic[(int, str)]'' (UnionT [ClassT ''int'', ClassT ''str''])) (ClassT ''float'') = Inr False"
  using subclasscheck_int_str_float [of typename_model "''int''" "''str''" "''(int, str)''"
      flat_mro "''float''" 0]
    getitem_int_str [of 0]
  by (auto simp: flat_mro_def)

text \<open>
  C9. The check is reflexive on patterns: two patterns built from the same valid spec, which
  are different objects, pass the check against each other, and a pattern passes it against
  itself, whenever the underlying test is reflexive on tuple aliases.
\<close>

theorem subclasscheck_reflexive:
  "valid_spec spec \<and> typename (TupleV (as_tuple spec)) = Inr label \<and>
   (\<forall>t. ordinary_type t \<longrightarrow> is_subtype (TupleT t) (TupleT t) = Inr True) \<longrightarrow>
   (\<exists>P Q k k'. getitem typename spec next_id = (Inr P, k) \<and> getitem typename spec k = (Inr Q, k')
      \<and> \<not> py_is P Q
      \<and> subclasscheck is_subtype P P = Inr True \<and> subclasscheck is_subtype P Q = Inr True)"
proof
  assume h: "valid_spec spec \<and> typename (TupleV (as_tuple spec)) = Inr label \<and>
   (\<forall>t. ordinary_type t \<longrightarrow> is_subtype (TupleT t) (TupleT t) = Inr True)"
  obtain n u where
    g: "getitem typename spec next_id = (Inr (VariadicSig next_id n u), Suc next_id)"
    and tu: "typing_Union (as_tuple spec) = Inr u" and u: "ordinary_type u"
    using h getitem_succeeds [of spec typename label next_id] by blast
  obtain n' u' where
    g': "getitem typename spec (Suc next_id) = (Inr (VariadicSig (Suc next_id) n' u'), Suc (Suc next_id))"
    and tu': "typing_Union (as_tuple spec) = Inr u'"
    using h getitem_succeeds [of spec typename label "Suc next_id"] by blast
  from tu tu' have same: "u' = u" by simp
  have tc: "type_check u" using u by (rule ordinary_type_check)
  have r: "is_subtype (TupleT u) (TupleT u) = Inr True" using h u by blast
  have 1: "subclasscheck is_subtype (VariadicSig next_id n u) (VariadicSig next_id n u) = Inr True"
    using tc r by (simp add: subclasscheck_variadic)
  have 2: "subclasscheck is_subtype (VariadicSig next_id n u) (VariadicSig (Suc next_id) n' u') = Inr True"
    using tc r same by (simp add: subclasscheck_variadic)
  have 3: "\<not> py_is (VariadicSig next_id n u) (VariadicSig (Suc next_id) n' u')" by simp
  show "\<exists>P Q k k'. getitem typename spec next_id = (Inr P, k) \<and> getitem typename spec k = (Inr Q, k')
      \<and> \<not> py_is P Q
      \<and> subclasscheck is_subtype P P = Inr True \<and> subclasscheck is_subtype P Q = Inr True"
    using g g' 1 2 3 by blast
qed

theorem subclasscheck_reflexive_witness:
  "subclasscheck (nominal_test flat_mro)
     (VariadicSig 0 ''Variadic[(int, str)]'' (UnionT [ClassT ''int'', ClassT ''str'']))
     (VariadicSig 1 ''Variadic[(int, str)]'' (UnionT [ClassT ''int'', ClassT ''str''])) = Inr True"
proof -
  have r: "\<forall>t. ordinary_type t \<longrightarrow> nominal_test flat_mro (TupleT t) (TupleT t) = Inr True"
    using nominal_subtype_refl [OF flat_mro_refl] by (simp add: nominal_test_def)
  show ?thesis
    using subclasscheck_reflexive [of "TupleV [ClassT ''int'', ClassT ''str'']" typename_model
        "''(int, str)''" "nominal_test flat_mro" 0] r
      getitem_int_str [of 0] getitem_int_str [of 1]
    by auto
qed

subsection \<open>Unions are canonical up to equality\<close>

lemma same_members_refl: "same_members xs xs"
  using py_eq_refl by (auto simp: same_members_def)

lemma same_members_sym: "same_members xs ys \<Longrightarrow> same_members ys xs"
  unfolding same_members_def using py_eq_sym by blast

lemma same_members_trans: "same_members xs ys \<Longrightarrow> same_members ys zs \<Longrightarrow> same_members xs zs"
  unfolding same_members_def using py_eq_trans by blast

lemma same_members_set: "set xs = set ys \<Longrightarrow> same_members xs ys"
  using py_eq_refl by (auto simp: same_members_def)

lemma remove_dups_covers:
  "x \<in> set ps \<Longrightarrow> (\<exists>s\<in>set seen. py_eq s x) \<or> (\<exists>d\<in>set (remove_dups seen ps). py_eq d x)"
proof (induction ps arbitrary: seen)
  case Nil
  then show ?case by simp
next
  case (Cons p ps)
  show ?case
  proof (cases "\<exists>s\<in>set seen. py_eq s p")
    case True
    then show ?thesis using Cons by auto
  next
    case False
    show ?thesis
    proof (cases "x = p")
      case True
      then show ?thesis using False py_eq_refl by auto
    next
      case xp: False
      with Cons.prems have "x \<in> set ps" by simp
      from Cons.IH [OF this, of "p # seen"] False show ?thesis by auto
    qed
  qed
qed

lemma remove_dups_fresh:
  "d \<in> set (remove_dups seen ps) \<Longrightarrow> \<forall>s\<in>set seen. \<not> py_eq s d"
proof (induction ps arbitrary: seen)
  case Nil
  then show ?case by simp
next
  case (Cons p ps)
  show ?case
  proof (cases "\<exists>s\<in>set seen. py_eq s p")
    case True
    with Cons show ?thesis by simp
  next
    case False
    with Cons.prems have "d = p \<or> d \<in> set (remove_dups (p # seen) ps)" by simp
    then show ?thesis
    proof
      assume "d = p"
      with False show ?thesis by simp
    next
      assume "d \<in> set (remove_dups (p # seen) ps)"
      from Cons.IH [OF this] show ?thesis by simp
    qed
  qed
qed

lemma remove_dups_distinct: "distinct_eq (remove_dups seen ps)"
proof (induction ps arbitrary: seen)
  case Nil
  show ?case by simp
next
  case (Cons p ps)
  show ?case using Cons remove_dups_fresh [of _ "p # seen" ps] by auto
qed

lemma remove_dups_same_members: "same_members (remove_dups [] ps) ps"
  unfolding same_members_def
proof (intro conjI ballI)
  fix x assume "x \<in> set (remove_dups [] ps)"
  then have "x \<in> set ps" using remove_dups_subset by blast
  then show "\<exists>y\<in>set ps. py_eq x y" using py_eq_refl by blast
next
  fix y assume "y \<in> set ps"
  from remove_dups_covers [OF this, of "[]"]
  show "\<exists>x\<in>set (remove_dups [] ps). py_eq x y" by simp
qed

lemma set_flatten_unions:
  "set (flatten_unions ps) = (\<Union>p\<in>set ps. set (if is_Union p then get_Union_params p else [p]))"
  by (induction ps rule: flatten_unions.induct) auto

lemma distinct_eq_all_equal:
  assumes "distinct_eq ds" and "\<forall>d\<in>set ds. py_eq p d"
  shows "length ds \<le> 1"
proof (cases ds)
  case Nil
  then show ?thesis by simp
next
  case (Cons d1 rest)
  show ?thesis
  proof (cases rest)
    case Nil
    with Cons show ?thesis by simp
  next
    case (Cons d2 rest')
    with \<open>ds = d1 # rest\<close> assms(2) have "py_eq p d1" "py_eq p d2" by auto
    then have "py_eq d1 d2" using py_eq_sym py_eq_trans by blast
    with Cons \<open>ds = d1 # rest\<close> assms(1) show ?thesis by simp
  qed
qed

lemma typing_Union_result:
  "typing_Union ps = Inr u \<Longrightarrow>
   u = (case remove_dups [] (flatten_unions ps) of [p] \<Rightarrow> p | ds \<Rightarrow> UnionT ds)"
  by (auto simp: typing_Union_def split: if_splits list.splits)

lemma canonical_eq:
  assumes dx: "distinct_eq dx" and dy: "distinct_eq dy" and sm: "same_members dx dy"
  shows "py_eq (case dx of [p] \<Rightarrow> p | ds \<Rightarrow> UnionT ds) (case dy of [p] \<Rightarrow> p | ds \<Rightarrow> UnionT ds)"
proof -
  have single: "length b = 1" if "a = [p]" "same_members a b" "distinct_eq b" for a b p
  proof -
    from that(1,2) have all: "\<forall>d\<in>set b. py_eq p d" and ex: "\<exists>d\<in>set b. py_eq p d"
      by (auto simp: same_members_def)
    from distinct_eq_all_equal [OF that(3) all] have "length b \<le> 1" .
    moreover from ex have "b \<noteq> []" by auto
    ultimately show ?thesis by (cases b) auto
  qed
  show ?thesis
  proof (cases "length dx = 1")
    case True
    then obtain p where p: "dx = [p]" by (cases dx) auto
    from single [OF p sm dy] obtain q where q: "dy = [q]" by (cases dy) auto
    from sm p q show ?thesis by (simp add: same_members_def)
  next
    case False
    have ny: "length dy \<noteq> 1"
    proof
      assume "length dy = 1"
      then obtain q where q: "dy = [q]" by (cases dy) auto
      from single [OF q same_members_sym [OF sm] dx] False show False by simp
    qed
    have ux: "(case dx of [p] \<Rightarrow> p | ds \<Rightarrow> UnionT ds) = UnionT dx"
      using False by (auto split: list.splits)
    have uy: "(case dy of [p] \<Rightarrow> p | ds \<Rightarrow> UnionT ds) = UnionT dy"
      using ny by (auto split: list.splits)
    show ?thesis unfolding ux uy using sm by (simp add: same_members_def)
  qed
qed

lemma typing_Union_eq:
  assumes "typing_Union xs = Inr u" and "typing_Union ys = Inr v"
    and "same_members (flatten_unions xs) (flatten_unions ys)"
  shows "py_eq u v"
proof -
  let ?dx = "remove_dups [] (flatten_unions xs)" and ?dy = "remove_dups [] (flatten_unions ys)"
  have "same_members ?dx ?dy"
    using remove_dups_same_members [of "flatten_unions xs"]
      remove_dups_same_members [of "flatten_unions ys"] assms(3)
      same_members_sym same_members_trans by blast
  from canonical_eq [OF remove_dups_distinct remove_dups_distinct this]
  show ?thesis using typing_Union_result [OF assms(1)] typing_Union_result [OF assms(2)] by simp
qed

subsection \<open>Equality of patterns\<close>

lemma variadic_eq_sigs: "variadic_eq (VariadicSig i n t) (VariadicSig j m u) = py_eq t u"
  by (simp add: variadic_eq_def)

lemma as_tuple_ordinary: "ordinary_type t \<Longrightarrow> as_tuple t = [t]"
  by (cases t) simp_all

lemma getitem_str_int:
  "getitem typename_model (TupleV [ClassT ''str'', ClassT ''int'']) n =
     (Inr (VariadicSig n ''Variadic[(str, int)]'' (UnionT [ClassT ''str'', ClassT ''int''])), Suc n)"
  by (simp add: getitem_def getitem_never_rejects typing_Union_def)

lemma getitem_int_str_int:
  "getitem typename_model (TupleV [ClassT ''int'', ClassT ''str'', ClassT ''int'']) n =
     (Inr (VariadicSig n ''Variadic[(int, str, int)]'' (UnionT [ClassT ''int'', ClassT ''str''])), Suc n)"
  by (simp add: getitem_def getitem_never_rejects typing_Union_def)

lemma getitem_tuple_int:
  "getitem typename_model (TupleV [ClassT ''int'']) n =
     (Inr (VariadicSig n ''Variadic[int]'' (ClassT ''int'')), Suc n)"
  by (simp add: getitem_def getitem_never_rejects typing_Union_int)

text \<open>
  C5. For ordinary types \<open>T1\<close> and \<open>T2\<close> the three patterns built from \<open>(T1, T2)\<close>,
  \<open>(T2, T1)\<close> and \<open>(T1, T2, T1)\<close> are built and are equal: \<^verbatim>\<open>__eq__\<close> compares the
  \<^verbatim>\<open>variadic_type\<close> attributes, which are unions of the same members.
\<close>

theorem pattern_eq_order_duplicates:
  "ordinary_type T1 \<and> ordinary_type T2 \<and> typename (TupleV [T1, T2]) = Inr l1 \<and>
   typename (TupleV [T2, T1]) = Inr l2 \<and> typename (TupleV [T1, T2, T1]) = Inr l3 \<longrightarrow>
   (\<exists>P Q R k1 k2 k3.
      getitem typename (TupleV [T1, T2]) n1 = (Inr P, k1) \<and>
      getitem typename (TupleV [T2, T1]) n2 = (Inr Q, k2) \<and>
      getitem typename (TupleV [T1, T2, T1]) n3 = (Inr R, k3) \<and>
      variadic_eq P Q \<and> variadic_eq Q P \<and> variadic_eq P R \<and> variadic_eq R P)"
proof
  assume h: "ordinary_type T1 \<and> ordinary_type T2 \<and> typename (TupleV [T1, T2]) = Inr l1 \<and>
   typename (TupleV [T2, T1]) = Inr l2 \<and> typename (TupleV [T1, T2, T1]) = Inr l3"
  obtain a u where
    g1: "getitem typename (TupleV [T1, T2]) n1 = (Inr (VariadicSig n1 a u), Suc n1)"
    and u: "typing_Union [T1, T2] = Inr u"
    using h getitem_succeeds [of "TupleV [T1, T2]" typename l1 n1] by auto
  obtain b v where
    g2: "getitem typename (TupleV [T2, T1]) n2 = (Inr (VariadicSig n2 b v), Suc n2)"
    and v: "typing_Union [T2, T1] = Inr v"
    using h getitem_succeeds [of "TupleV [T2, T1]" typename l2 n2] by auto
  obtain c w where
    g3: "getitem typename (TupleV [T1, T2, T1]) n3 = (Inr (VariadicSig n3 c w), Suc n3)"
    and w: "typing_Union [T1, T2, T1] = Inr w"
    using h getitem_succeeds [of "TupleV [T1, T2, T1]" typename l3 n3] by auto
  have s12: "same_members (flatten_unions [T1, T2]) (flatten_unions [T2, T1])"
    by (rule same_members_set) (auto simp: set_flatten_unions)
  have s13: "same_members (flatten_unions [T1, T2]) (flatten_unions [T1, T2, T1])"
    by (rule same_members_set) (auto simp: set_flatten_unions)
  have uv: "py_eq u v" using typing_Union_eq [OF u v s12] .
  have uw: "py_eq u w" using typing_Union_eq [OF u w s13] .
  have e: "variadic_eq (VariadicSig n1 a u) (VariadicSig n2 b v)"
    "variadic_eq (VariadicSig n2 b v) (VariadicSig n1 a u)"
    "variadic_eq (VariadicSig n1 a u) (VariadicSig n3 c w)"
    "variadic_eq (VariadicSig n3 c w) (VariadicSig n1 a u)"
    using uv uw py_eq_sym by (simp_all add: variadic_eq_sigs)
  show "\<exists>P Q R k1 k2 k3.
      getitem typename (TupleV [T1, T2]) n1 = (Inr P, k1) \<and>
      getitem typename (TupleV [T2, T1]) n2 = (Inr Q, k2) \<and>
      getitem typename (TupleV [T1, T2, T1]) n3 = (Inr R, k3) \<and>
      variadic_eq P Q \<and> variadic_eq Q P \<and> variadic_eq P R \<and> variadic_eq R P"
    using g1 g2 g3 e by blast
qed

theorem pattern_eq_order_duplicates_witness:
  "variadic_eq (VariadicSig 0 ''Variadic[(int, str)]'' (UnionT [ClassT ''int'', ClassT ''str'']))
               (VariadicSig 1 ''Variadic[(str, int)]'' (UnionT [ClassT ''str'', ClassT ''int'']))
   \<and> variadic_eq (VariadicSig 0 ''Variadic[(int, str)]'' (UnionT [ClassT ''int'', ClassT ''str'']))
               (VariadicSig 2 ''Variadic[(int, str, int)]'' (UnionT [ClassT ''int'', ClassT ''str'']))"
  using pattern_eq_order_duplicates [of "ClassT ''int''" "ClassT ''str''" typename_model
      "''(int, str)''" "''(str, int)''" "''(int, str, int)''" 0 1 2]
    getitem_int_str [of 0] getitem_str_int [of 1] getitem_int_str_int [of 2]
  by auto

text \<open>
  C10. A single type and the tuple of that one type are the same spec after lines 79-80:
  the two patterns are equal and have the same hash.
\<close>

theorem single_type_normalized:
  "ordinary_type T \<and> typename (TupleV [T]) = Inr label \<longrightarrow>
   (\<exists>P Q k k'. getitem typename T n = (Inr P, k) \<and> getitem typename (TupleV [T]) m = (Inr Q, k')
      \<and> variadic_eq P Q \<and> variadic_eq Q P \<and> py_hash env P = py_hash env Q)"
proof
  assume h: "ordinary_type T \<and> typename (TupleV [T]) = Inr label"
  then have at: "as_tuple T = [T]" by (simp add: as_tuple_ordinary)
  obtain a u where
    g1: "getitem typename T n = (Inr (VariadicSig n a u), Suc n)"
    and u: "typing_Union [T] = Inr u"
    using h at getitem_succeeds [of T typename label n] by (cases T) auto
  obtain b v where
    g2: "getitem typename (TupleV [T]) m = (Inr (VariadicSig m b v), Suc m)"
    and v: "typing_Union [T] = Inr v"
    using h getitem_succeeds [of "TupleV [T]" typename label m] by auto
  from u v have same: "v = u" by simp
  have e: "variadic_eq (VariadicSig n a u) (VariadicSig m b v)"
    "variadic_eq (VariadicSig m b v) (VariadicSig n a u)"
    "py_hash env (VariadicSig n a u) = py_hash env (VariadicSig m b v)"
    using same py_eq_refl by (simp_all add: variadic_eq_sigs)
  show "\<exists>P Q k k'. getitem typename T n = (Inr P, k) \<and> getitem typename (TupleV [T]) m = (Inr Q, k')
      \<and> variadic_eq P Q \<and> variadic_eq Q P \<and> py_hash env P = py_hash env Q"
    using g1 g2 e by blast
qed

theorem single_type_normalized_witness:
  "variadic_eq (VariadicSig 0 ''Variadic[int]'' (ClassT ''int''))
               (VariadicSig 1 ''Variadic[int]'' (ClassT ''int''))
   \<and> py_hash sample_hash_env (VariadicSig 0 ''Variadic[int]'' (ClassT ''int'')) =
      py_hash sample_hash_env (VariadicSig 1 ''Variadic[int]'' (ClassT ''int''))"
  using single_type_normalized [of "ClassT ''int''" typename_model "''int''" 0 1 sample_hash_env]
    getitem_int [of 0] getitem_tuple_int [of 1]
  by auto

subsection \<open>Equal objects have equal hashes\<close>

lemma distinct_eq_remove_middle:
  "distinct_eq (ys1 @ y # ys2) \<Longrightarrow>
   distinct_eq (ys1 @ ys2) \<and> (\<forall>b\<in>set (ys1 @ ys2). \<not> py_eq y b \<and> \<not> py_eq b y)"
proof (induction ys1)
  case Nil
  then show ?case using py_eq_sym by auto
next
  case (Cons a ys1)
  then show ?case using py_eq_sym by auto
qed

lemma same_members_Nil: "same_members [] ys \<Longrightarrow> ys = []"
  by (cases ys) (auto simp: same_members_def)

lemma mset_map_same_members:
  assumes "distinct_eq dx" and "distinct_eq dy" and "same_members dx dy"
    and "\<forall>x\<in>set dx. \<forall>y. py_eq x y \<longrightarrow> f x = f y"
  shows "mset (map f dx) = mset (map f dy)"
  using assms
proof (induction dx arbitrary: dy)
  case Nil
  then show ?case using same_members_Nil by auto
next
  case (Cons x xs)
  from Cons.prems(3) obtain y where y: "y \<in> set dy" "py_eq x y"
    by (auto simp: same_members_def)
  then obtain ys1 ys2 where dy: "dy = ys1 @ y # ys2" by (auto dest: split_list)
  let ?r = "ys1 @ ys2"
  from distinct_eq_remove_middle [of ys1 y ys2] Cons.prems(2) dy
  have dr: "distinct_eq ?r" and ny: "\<forall>b\<in>set ?r. \<not> py_eq y b \<and> \<not> py_eq b y" by auto
  from Cons.prems(1) have dxs: "distinct_eq xs" and nx: "\<forall>a\<in>set xs. \<not> py_eq x a" by auto
  have sm: "same_members xs ?r"
    unfolding same_members_def
  proof (intro conjI ballI)
    fix a assume a: "a \<in> set xs"
    with Cons.prems(3) obtain b where b: "b \<in> set dy" "py_eq a b"
      by (auto simp: same_members_def)
    have "b \<noteq> y \<or> b \<in> set ?r"
    proof (rule ccontr)
      assume "\<not> (b \<noteq> y \<or> b \<in> set ?r)"
      then have "py_eq a y" using b by simp
      with y(2) have "py_eq x a" using py_eq_sym py_eq_trans by blast
      with nx a show False by blast
    qed
    with b dy have "b \<in> set ?r" by auto
    with b show "\<exists>b\<in>set ?r. py_eq a b" by blast
  next
    fix b assume b: "b \<in> set ?r"
    then have "b \<in> set dy" using dy by auto
    with Cons.prems(3) obtain a where a: "a \<in> set (x # xs)" "py_eq a b"
      by (auto simp: same_members_def)
    have "a \<noteq> x"
    proof
      assume "a = x"
      with a y(2) have "py_eq y b" using py_eq_sym py_eq_trans by blast
      with ny b show False by blast
    qed
    with a show "\<exists>a\<in>set xs. py_eq a b" by auto
  qed
  from Cons.prems(4) have fx: "f x = f y" using y(2) by simp
  from Cons.prems(4) have "\<forall>x\<in>set xs. \<forall>y. py_eq x y \<longrightarrow> f x = f y" by simp
  from Cons.IH [OF dxs dr sm this] have "mset (map f xs) = mset (map f ?r)" .
  then show ?case using fx dy by simp
qed

lemma frozenset_hash_mset:
  assumes "mset hs = mset hs'"
  shows "frozenset_hash env hs = frozenset_hash env hs'"
proof -
  have "fold (\<lambda>h acc. xor acc (shuffle_bits env h)) hs =
        fold (\<lambda>h acc. xor acc (shuffle_bits env h)) hs'"
    by (rule fold_multiset_equiv [OF _ assms]) (simp add: fun_eq_iff ac_simps)
  moreover have "length hs = length hs'" using assms by (rule mset_eq_length)
  ultimately show ?thesis by (simp add: frozenset_hash_def)
qed

lemma map_hash_list_all2:
  assumes "list_all2 py_eq xs ys"
    and "\<And>x y. x \<in> set xs \<Longrightarrow> py_eq x y \<Longrightarrow> f x = f y"
  shows "map f xs = map f ys"
  using assms by (induction xs ys rule: list_all2_induct) auto

lemma py_hash_respects_eq: "py_eq x y \<Longrightarrow> py_hash env x = py_hash env y"
proof (induction x arbitrary: y)
  case (IntV a)
  then show ?case by (cases y) auto
next
  case (TupleV xs)
  show ?case
  proof (cases y)
    case yt: (TupleV ys)
    with TupleV.prems have "list_all2 py_eq xs ys" by simp
    then have "map (py_hash env) xs = map (py_hash env) ys"
      using TupleV.IH by (rule map_hash_list_all2)
    with yt show ?thesis by simp
  qed (use TupleV.prems in auto)
next
  case (ClassT c)
  then show ?case by (cases y) auto
next
  case (UnionT xs)
  show ?case
  proof (cases y)
    case yu: (UnionT ys)
    let ?dx = "remove_dups [] xs" and ?dy = "remove_dups [] ys"
    from UnionT.prems yu have "same_members xs ys" by (simp add: same_members_def)
    then have sm: "same_members ?dx ?dy"
      using remove_dups_same_members [of xs] remove_dups_same_members [of ys]
        same_members_sym same_members_trans by blast
    have ih: "\<forall>x\<in>set ?dx. \<forall>y. py_eq x y \<longrightarrow> py_hash env x = py_hash env y"
      using UnionT.IH remove_dups_subset by blast
    have "mset (map (py_hash env) ?dx) = mset (map (py_hash env) ?dy)"
      using remove_dups_distinct remove_dups_distinct sm ih by (rule mset_map_same_members)
    then show ?thesis using yu by (simp add: frozenset_hash_mset)
  qed (use UnionT.prems in auto)
next
  case (TupleT t)
  show ?case
  proof (cases y)
    case yt: (TupleT u)
    with TupleT.prems have "py_eq t u" by simp
    then have "py_hash env t = py_hash env u" by (rule TupleT.IH)
    with yt show ?thesis by simp
  qed (use TupleT.prems in auto)
next
  case (VariadicSig i n t)
  show ?case
  proof (cases y)
    case yv: (VariadicSig j m u)
    with VariadicSig.prems have "py_eq t u" by simp
    then have "py_hash env t = py_hash env u" by (rule VariadicSig.IH)
    with yv show ?thesis by simp
  qed (use VariadicSig.prems in auto)
qed

text \<open>
  C6. Two patterns the factory has built that are equal under \<^verbatim>\<open>__eq__\<close> have the same
  \<^verbatim>\<open>__hash__\<close>, whatever the hash parameters are; and two calls of the factory on the same
  valid spec return two different objects that are equal and hash equal.
\<close>

theorem equal_patterns_hash_equal:
  "(getitem typename spec1 n1 = (Inr P, k1) \<and> getitem typename' spec2 n2 = (Inr Q, k2) \<and>
      variadic_eq P Q \<longrightarrow> py_hash env P = py_hash env Q)
   \<and> (valid_spec spec \<and> typename (TupleV (as_tuple spec)) = Inr label \<longrightarrow>
      (\<exists>A B k k'. getitem typename spec n = (Inr A, k) \<and> getitem typename spec k = (Inr B, k')
         \<and> \<not> py_is A B \<and> variadic_eq A B \<and> py_hash env A = py_hash env B))"
proof (intro conjI impI)
  assume h: "getitem typename spec1 n1 = (Inr P, k1) \<and> getitem typename' spec2 n2 = (Inr Q, k2) \<and>
      variadic_eq P Q"
  then obtain a t where P: "P = VariadicSig n1 a t" using getitem_result_variadic by blast
  from h obtain b u where Q: "Q = VariadicSig n2 b u" using getitem_result_variadic by blast
  from h P Q have "py_eq P Q" by (simp add: variadic_eq_sigs)
  then show "py_hash env P = py_hash env Q" by (rule py_hash_respects_eq)
next
  assume h: "valid_spec spec \<and> typename (TupleV (as_tuple spec)) = Inr label"
  obtain a u where
    g: "getitem typename spec n = (Inr (VariadicSig n a u), Suc n)"
    and tu: "typing_Union (as_tuple spec) = Inr u"
    using h getitem_succeeds [of spec typename label n] by blast
  obtain b v where
    g': "getitem typename spec (Suc n) = (Inr (VariadicSig (Suc n) b v), Suc (Suc n))"
    and tv: "typing_Union (as_tuple spec) = Inr v"
    using h getitem_succeeds [of spec typename label "Suc n"] by blast
  from tu tv have same: "v = u" by simp
  have e: "\<not> py_is (VariadicSig n a u) (VariadicSig (Suc n) b v)"
    "variadic_eq (VariadicSig n a u) (VariadicSig (Suc n) b v)"
    "py_hash env (VariadicSig n a u) = py_hash env (VariadicSig (Suc n) b v)"
    using same py_eq_refl by (simp_all add: variadic_eq_sigs)
  show "\<exists>A B k k'. getitem typename spec n = (Inr A, k) \<and> getitem typename spec k = (Inr B, k')
         \<and> \<not> py_is A B \<and> variadic_eq A B \<and> py_hash env A = py_hash env B"
    using g g' e by blast
qed

theorem equal_patterns_hash_equal_witness:
  "variadic_eq (VariadicSig 0 ''Variadic[(int, str)]'' (UnionT [ClassT ''int'', ClassT ''str'']))
               (VariadicSig 1 ''Variadic[(str, int)]'' (UnionT [ClassT ''str'', ClassT ''int'']))
   \<and> py_hash sample_hash_env
        (VariadicSig 0 ''Variadic[(int, str)]'' (UnionT [ClassT ''int'', ClassT ''str''])) =
      py_hash sample_hash_env
        (VariadicSig 1 ''Variadic[(str, int)]'' (UnionT [ClassT ''str'', ClassT ''int'']))
   \<and> \<not> py_is (VariadicSig 0 ''Variadic[int]'' (ClassT ''int''))
              (VariadicSig 1 ''Variadic[int]'' (ClassT ''int''))
   \<and> variadic_eq (VariadicSig 0 ''Variadic[int]'' (ClassT ''int''))
                 (VariadicSig 1 ''Variadic[int]'' (ClassT ''int''))
   \<and> py_hash sample_hash_env (VariadicSig 0 ''Variadic[int]'' (ClassT ''int'')) =
      py_hash sample_hash_env (VariadicSig 1 ''Variadic[int]'' (ClassT ''int''))"
proof -
  let ?P = "VariadicSig 0 ''Variadic[(int, str)]'' (UnionT [ClassT ''int'', ClassT ''str''])"
  let ?Q = "VariadicSig 1 ''Variadic[(str, int)]'' (UnionT [ClassT ''str'', ClassT ''int''])"
  have e: "variadic_eq ?P ?Q" by (simp add: variadic_eq_sigs)
  have 1: "py_hash sample_hash_env ?P = py_hash sample_hash_env ?Q"
    using equal_patterns_hash_equal [of typename_model "TupleV [ClassT ''int'', ClassT ''str'']" 0
        ?P "Suc 0" typename_model "TupleV [ClassT ''str'', ClassT ''int'']" 1 ?Q "Suc 1"
        sample_hash_env]
      getitem_int_str [of 0] getitem_str_int [of 1] e
    by blast
  have 2: "\<not> py_is (VariadicSig 0 ''Variadic[int]'' (ClassT ''int''))
              (VariadicSig 1 ''Variadic[int]'' (ClassT ''int''))
   \<and> variadic_eq (VariadicSig 0 ''Variadic[int]'' (ClassT ''int''))
                 (VariadicSig 1 ''Variadic[int]'' (ClassT ''int''))
   \<and> py_hash sample_hash_env (VariadicSig 0 ''Variadic[int]'' (ClassT ''int'')) =
      py_hash sample_hash_env (VariadicSig 1 ''Variadic[int]'' (ClassT ''int''))"
    using equal_patterns_hash_equal [of typename_model _ _ _ _ _ _ _ _ _ sample_hash_env
        "ClassT ''int''" "''int''" 0]
      getitem_int [of 0] getitem_int [of 1]
    by auto
  show ?thesis using e 1 2 by blast
qed

subsection \<open>Pattern against pattern\<close>

lemma size_member: "x \<in> set xs \<Longrightarrow> size x < Suc (size_list size xs)"
  using size_list_estimation' [of x xs "size x" size] by simp

lemma nominal_right_union:
  "\<not> is_Union a \<Longrightarrow> nominal_subtype mro a (UnionT zs) \<Longrightarrow> \<exists>z\<in>set zs. nominal_subtype mro a z"
  by (cases a) auto

lemma nominal_right_unionI:
  "\<not> is_Union a \<Longrightarrow> z \<in> set zs \<Longrightarrow> nominal_subtype mro a z \<Longrightarrow> nominal_subtype mro a (UnionT zs)"
  by (cases a) auto

lemma nominal_subtype_trans:
  assumes tr: "\<forall>a b c. b \<in> set (mro a) \<longrightarrow> c \<in> set (mro b) \<longrightarrow> c \<in> set (mro a)"
  shows "nominal_subtype mro a b \<Longrightarrow> nominal_subtype mro b c \<Longrightarrow> nominal_subtype mro a c"
proof (induction "size a + size b + size c" arbitrary: a b c rule: less_induct)
  case less
  note ab = less.prems(1) and bc = less.prems(2)
  show ?case
  proof (cases "is_Union a")
    case True
    then obtain xs where a: "a = UnionT xs" by (cases a) auto
    have "nominal_subtype mro x c" if "x \<in> set xs" for x
    proof -
      from that ab a have "nominal_subtype mro x b" by simp
      moreover have "size x + size b + size c < size a + size b + size c"
        using size_member [OF that] a by simp
      ultimately show ?thesis using less.hyps bc by blast
    qed
    with a show ?thesis by simp
  next
    case na: False
    show ?thesis
    proof (cases "is_Union b")
      case True
      then obtain ys where b: "b = UnionT ys" by (cases b) auto
      from nominal_right_union [OF na] ab b obtain y where y: "y \<in> set ys" "nominal_subtype mro a y"
        by blast
      from bc b y have "nominal_subtype mro y c" by simp
      moreover have "size a + size y + size c < size a + size b + size c"
        using size_member [OF y(1)] b by simp
      ultimately show ?thesis using less.hyps y(2) by blast
    next
      case nb: False
      show ?thesis
      proof (cases "is_Union c")
        case True
        then obtain zs where c: "c = UnionT zs" by (cases c) auto
        from nominal_right_union [OF nb] bc c obtain z where z: "z \<in> set zs" "nominal_subtype mro b z"
          by blast
        have "size a + size b + size z < size a + size b + size c"
          using size_member [OF z(1)] c by simp
        with less.hyps ab z(2) have "nominal_subtype mro a z" by blast
        with na z(1) c show ?thesis using nominal_right_unionI by blast
      next
        case nc: False
        show ?thesis
        proof (cases a)
          case (ClassT ca)
          with ab nb obtain cb where b: "b = ClassT cb" by (cases b) auto
          with bc nc obtain cc where c: "c = ClassT cc" by (cases c) auto
          from ab bc ClassT b c tr show ?thesis by auto
        next
          case (TupleT ta)
          with ab nb obtain tb where b: "b = TupleT tb" by (cases b) auto
          with bc nc obtain tc where c: "c = TupleT tc" by (cases c) auto
          from ab TupleT b have 1: "nominal_subtype mro ta tb" by simp
          from bc b c have 2: "nominal_subtype mro tb tc" by simp
          have lt: "size ta + size tb + size tc < size a + size b + size c"
            using TupleT b c by simp
          from less.hyps [OF lt 1 2] show ?thesis using TupleT c by simp
        qed (use ab na in auto)
      qed
    qed
  qed
qed

lemma flat_mro_trans:
  "\<forall>a b c. b \<in> set (flat_mro a) \<longrightarrow> c \<in> set (flat_mro b) \<longrightarrow> c \<in> set (flat_mro a)"
  by (auto simp: flat_mro_def split: if_splits)

lemma typing_Union_one_class: "typing_Union [ClassT i] = Inr (ClassT i)"
  by (simp add: typing_Union_def)

text \<open>
  C4. For a pattern \<open>P\<close> with allowed type \<open>S\<close> and a candidate pattern \<open>Q\<close> with allowed
  type \<open>C\<close>, the check of \<open>P\<close> on \<open>Q\<close> is the underlying test on \<^verbatim>\<open>Tuple[C, ...]\<close> and
  \<^verbatim>\<open>Tuple[S, ...]\<close>; when that test is covariant on tuple aliases, reflexive and transitive,
  it holds exactly when every type admitted by \<open>C\<close> is admitted by \<open>S\<close>. In particular, with
  the nominal test and a class \<open>s\<close> that is not a subclass of \<open>i\<close>, the candidate
  \<^verbatim>\<open>Variadic[i]\<close> passes the check of the target \<^verbatim>\<open>Variadic[(i, s)]\<close>, and the candidate
  \<^verbatim>\<open>Variadic[(i, s)]\<close> fails the check of the target \<^verbatim>\<open>Variadic[i]\<close>. The target is the
  pattern whose check is called, the first argument after the test below.
\<close>

theorem subclasscheck_patterns:
  "(valid_spec p \<and> valid_spec q \<and> typename (TupleV (as_tuple p)) = Inr lp \<and>
    typename (TupleV (as_tuple q)) = Inr lq \<longrightarrow>
      (\<exists>P Q S C kp kq.
         getitem typename p n = (Inr P, kp) \<and> getitem typename q m = (Inr Q, kq) \<and>
         variadic_type_of P = Inr S \<and> variadic_type_of Q = Inr C \<and>
         subclasscheck is_subtype P Q = is_subtype (TupleT C) (TupleT S) \<and>
         ((\<forall>a b. is_subtype (TupleT a) (TupleT b) = is_subtype a b) \<and>
          (\<forall>t. ordinary_type t \<longrightarrow> is_subtype t t = Inr True) \<and>
          (\<forall>a b c. is_subtype a b = Inr True \<and> is_subtype b c = Inr True
                     \<longrightarrow> is_subtype a c = Inr True) \<longrightarrow>
            ((subclasscheck is_subtype P Q = Inr True) =
             (\<forall>t. ordinary_type t \<longrightarrow> is_subtype t C = Inr True \<longrightarrow> is_subtype t S = Inr True)))))
   \<and> (typename (TupleV [ClassT i]) = Inr li \<and> typename (TupleV [ClassT i, ClassT s]) = Inr lis \<and>
      i \<in> set (mro i) \<and> s \<in> set (mro s) \<and> i \<notin> set (mro s) \<longrightarrow>
      (\<exists>N B kn kb.
         getitem typename (ClassT i) m = (Inr N, kn) \<and>
         getitem typename (TupleV [ClassT i, ClassT s]) n = (Inr B, kb) \<and>
         subclasscheck (nominal_test mro) B N = Inr True \<and>
         subclasscheck (nominal_test mro) N B = Inr False))"
proof (intro conjI impI)
  assume h: "valid_spec p \<and> valid_spec q \<and> typename (TupleV (as_tuple p)) = Inr lp \<and>
    typename (TupleV (as_tuple q)) = Inr lq"
  obtain a S where
    gp: "getitem typename p n = (Inr (VariadicSig n a S), Suc n)" and S: "ordinary_type S"
    using h getitem_succeeds [of p typename lp n] by blast
  obtain b C where
    gq: "getitem typename q m = (Inr (VariadicSig m b C), Suc m)" and C: "ordinary_type C"
    using h getitem_succeeds [of q typename lq m] by blast
  let ?P = "VariadicSig n a S" and ?Q = "VariadicSig m b C"
  have sc: "subclasscheck is_subtype ?P ?Q = is_subtype (TupleT C) (TupleT S)"
    using S C by (simp add: subclasscheck_variadic ordinary_type_check)
  have cont: "(subclasscheck is_subtype ?P ?Q = Inr True) =
      (\<forall>t. ordinary_type t \<longrightarrow> is_subtype t C = Inr True \<longrightarrow> is_subtype t S = Inr True)"
    if o: "(\<forall>a b. is_subtype (TupleT a) (TupleT b) = is_subtype a b) \<and>
          (\<forall>t. ordinary_type t \<longrightarrow> is_subtype t t = Inr True) \<and>
          (\<forall>a b c. is_subtype a b = Inr True \<and> is_subtype b c = Inr True
                     \<longrightarrow> is_subtype a c = Inr True)"
  proof -
    note o1 = conjunct1 [OF o] and o2 = conjunct1 [OF conjunct2 [OF o]]
      and o3 = conjunct2 [OF conjunct2 [OF o]]
    have cov: "is_subtype (TupleT C) (TupleT S) = is_subtype C S" by (rule o1 [rule_format])
    have refl: "is_subtype C C = Inr True" using C by (rule o2 [rule_format])
    show ?thesis
    proof
      assume "subclasscheck is_subtype ?P ?Q = Inr True"
      with sc cov have cs: "is_subtype C S = Inr True" by simp
      show "\<forall>t. ordinary_type t \<longrightarrow> is_subtype t C = Inr True \<longrightarrow> is_subtype t S = Inr True"
      proof (intro allI impI)
        fix t assume "is_subtype t C = Inr True"
        then show "is_subtype t S = Inr True" using cs o3 [rule_format, OF conjI] by simp
      qed
    next
      assume all: "\<forall>t. ordinary_type t \<longrightarrow> is_subtype t C = Inr True \<longrightarrow> is_subtype t S = Inr True"
      from all [rule_format, OF C refl] have "is_subtype C S = Inr True" .
      with sc cov show "subclasscheck is_subtype ?P ?Q = Inr True" by simp
    qed
  qed
  show "\<exists>P Q S C kp kq.
         getitem typename p n = (Inr P, kp) \<and> getitem typename q m = (Inr Q, kq) \<and>
         variadic_type_of P = Inr S \<and> variadic_type_of Q = Inr C \<and>
         subclasscheck is_subtype P Q = is_subtype (TupleT C) (TupleT S) \<and>
         ((\<forall>a b. is_subtype (TupleT a) (TupleT b) = is_subtype a b) \<and>
          (\<forall>t. ordinary_type t \<longrightarrow> is_subtype t t = Inr True) \<and>
          (\<forall>a b c. is_subtype a b = Inr True \<and> is_subtype b c = Inr True
                     \<longrightarrow> is_subtype a c = Inr True) \<longrightarrow>
            ((subclasscheck is_subtype P Q = Inr True) =
             (\<forall>t. ordinary_type t \<longrightarrow> is_subtype t C = Inr True \<longrightarrow> is_subtype t S = Inr True)))"
  proof (intro exI conjI impI)
    show "getitem typename p n = (Inr ?P, Suc n)" by (rule gp)
    show "getitem typename q m = (Inr ?Q, Suc m)" by (rule gq)
    show "variadic_type_of ?P = Inr S" by simp
    show "variadic_type_of ?Q = Inr C" by simp
    show "subclasscheck is_subtype ?P ?Q = is_subtype (TupleT C) (TupleT S)" by (rule sc)
    assume "(\<forall>a b. is_subtype (TupleT a) (TupleT b) = is_subtype a b) \<and>
          (\<forall>t. ordinary_type t \<longrightarrow> is_subtype t t = Inr True) \<and>
          (\<forall>a b c. is_subtype a b = Inr True \<and> is_subtype b c = Inr True
                     \<longrightarrow> is_subtype a c = Inr True)"
    then show "(subclasscheck is_subtype ?P ?Q = Inr True) =
      (\<forall>t. ordinary_type t \<longrightarrow> is_subtype t C = Inr True \<longrightarrow> is_subtype t S = Inr True)"
      by (rule cont)
  qed
next
  assume h: "typename (TupleV [ClassT i]) = Inr li \<and> typename (TupleV [ClassT i, ClassT s]) = Inr lis \<and>
      i \<in> set (mro i) \<and> s \<in> set (mro s) \<and> i \<notin> set (mro s)"
  then have ne: "i \<noteq> s" by auto
  let ?N = "VariadicSig m (''Variadic['' @ li @ '']'') (ClassT i)"
  let ?B = "VariadicSig n (''Variadic['' @ lis @ '']'') (UnionT [ClassT i, ClassT s])"
  have gn: "getitem typename (ClassT i) m = (Inr ?N, Suc m)"
    using h by (simp add: getitem_def getitem_never_rejects typing_Union_one_class)
  have gb: "getitem typename (TupleV [ClassT i, ClassT s]) n = (Inr ?B, Suc n)"
    using h ne by (simp add: getitem_def getitem_never_rejects typing_Union_two_classes)
  have 1: "subclasscheck (nominal_test mro) ?B ?N = Inr True"
    using h by (simp add: subclasscheck_variadic nominal_test_def)
  have 2: "subclasscheck (nominal_test mro) ?N ?B = Inr False"
    using h by (simp add: subclasscheck_variadic nominal_test_def)
  show "\<exists>N B kn kb.
         getitem typename (ClassT i) m = (Inr N, kn) \<and>
         getitem typename (TupleV [ClassT i, ClassT s]) n = (Inr B, kb) \<and>
         subclasscheck (nominal_test mro) B N = Inr True \<and>
         subclasscheck (nominal_test mro) N B = Inr False"
    using gn gb 1 2 by blast
qed

theorem subclasscheck_patterns_witness:
  "subclasscheck (nominal_test flat_mro)
     (VariadicSig 1 ''Variadic[(int, str)]'' (UnionT [ClassT ''int'', ClassT ''str'']))
     (VariadicSig 0 ''Variadic[int]'' (ClassT ''int'')) = Inr True
   \<and> subclasscheck (nominal_test flat_mro)
     (VariadicSig 0 ''Variadic[int]'' (ClassT ''int''))
     (VariadicSig 1 ''Variadic[(int, str)]'' (UnionT [ClassT ''int'', ClassT ''str''])) = Inr False
   \<and> nominal_test flat_mro (ClassT ''int'') (UnionT [ClassT ''int'', ClassT ''str'']) = Inr True"
proof -
  let ?T = "nominal_test flat_mro"
  let ?N = "VariadicSig 0 ''Variadic[int]'' (ClassT ''int'')"
  let ?B = "VariadicSig 1 ''Variadic[(int, str)]'' (UnionT [ClassT ''int'', ClassT ''str''])"
  note inst = subclasscheck_patterns [where p = "TupleV [ClassT ''int'', ClassT ''str'']"
      and q = "ClassT ''int''" and typename = typename_model and lp = "''(int, str)''"
      and lq = "''int''" and n = 1 and m = 0 and is_subtype = ?T and i = "''int''"
      and li = "''int''" and s = "''str''" and lis = "''(int, str)''" and mro = flat_mro]
  have cov: "\<forall>a b. ?T (TupleT a) (TupleT b) = ?T a b" by (simp add: nominal_test_def)
  have rf: "\<forall>t. ordinary_type t \<longrightarrow> ?T t t = Inr True"
    using nominal_subtype_refl [OF flat_mro_refl] by (simp add: nominal_test_def)
  have tr: "\<forall>a b c. ?T a b = Inr True \<and> ?T b c = Inr True \<longrightarrow> ?T a c = Inr True"
  proof (intro allI impI)
    fix a b c assume "?T a b = Inr True \<and> ?T b c = Inr True"
    then have "nominal_subtype flat_mro a b" "nominal_subtype flat_mro b c"
      by (simp_all add: nominal_test_def)
    then have "nominal_subtype flat_mro a c" by (rule nominal_subtype_trans [OF flat_mro_trans])
    then show "?T a c = Inr True" by (simp add: nominal_test_def)
  qed
  have g0: "getitem typename_model (ClassT ''int'') 0 = (Inr ?N, Suc 0)" by (rule getitem_int)
  have g1: "getitem typename_model (TupleV [ClassT ''int'', ClassT ''str'']) 1 = (Inr ?B, Suc 1)"
    using getitem_int_str [of 1] by simp
  have h2: "typename_model (TupleV [ClassT ''int'']) = Inr ''int'' \<and>
      typename_model (TupleV [ClassT ''int'', ClassT ''str'']) = Inr ''(int, str)'' \<and>
      ''int'' \<in> set (flat_mro ''int'') \<and> ''str'' \<in> set (flat_mro ''str'') \<and>
      ''int'' \<notin> set (flat_mro ''str'')"
    by (simp add: flat_mro_def)
  from inst [THEN conjunct2, THEN mp, OF h2] obtain N B kn kb where
    e: "getitem typename_model (ClassT ''int'') 0 = (Inr N, kn)"
       "getitem typename_model (TupleV [ClassT ''int'', ClassT ''str'']) 1 = (Inr B, kb)"
       "subclasscheck ?T B N = Inr True" "subclasscheck ?T N B = Inr False"
    by blast
  from e(1) g0 have N: "N = ?N" by simp
  from e(2) g1 have B: "B = ?B" by simp
  have ex: "subclasscheck ?T ?B ?N = Inr True" "subclasscheck ?T ?N ?B = Inr False"
    using e(3,4) N B by simp_all
  have h1: "valid_spec (TupleV [ClassT ''int'', ClassT ''str'']) \<and> valid_spec (ClassT ''int'') \<and>
      typename_model (TupleV (as_tuple (TupleV [ClassT ''int'', ClassT ''str'']))) = Inr ''(int, str)'' \<and>
      typename_model (TupleV (as_tuple (ClassT ''int''))) = Inr ''int''"
    by simp
  from inst [THEN conjunct1, THEN mp, OF h1] obtain P Q S C kp kq where
    f: "getitem typename_model (TupleV [ClassT ''int'', ClassT ''str'']) 1 = (Inr P, kp)"
       "getitem typename_model (ClassT ''int'') 0 = (Inr Q, kq)"
       "variadic_type_of P = Inr S" "variadic_type_of Q = Inr C"
    and imp: "(\<forall>a b. ?T (TupleT a) (TupleT b) = ?T a b) \<and>
          (\<forall>t. ordinary_type t \<longrightarrow> ?T t t = Inr True) \<and>
          (\<forall>a b c. ?T a b = Inr True \<and> ?T b c = Inr True \<longrightarrow> ?T a c = Inr True) \<longrightarrow>
            ((subclasscheck ?T P Q = Inr True) =
             (\<forall>t. ordinary_type t \<longrightarrow> ?T t C = Inr True \<longrightarrow> ?T t S = Inr True))"
    by blast
  from f(1) g1 have P: "P = ?B" by simp
  from f(2) g0 have Q: "Q = ?N" by simp
  from f(3) P have S: "S = UnionT [ClassT ''int'', ClassT ''str'']" by simp
  from f(4) Q have C: "C = ClassT ''int''" by simp
  from imp [THEN mp, OF conjI [OF cov conjI [OF rf tr]]]
  have "(subclasscheck ?T ?B ?N = Inr True) =
        (\<forall>t. ordinary_type t \<longrightarrow> ?T t (ClassT ''int'') = Inr True \<longrightarrow>
             ?T t (UnionT [ClassT ''int'', ClassT ''str'']) = Inr True)"
    unfolding P Q S C .
  with ex(1) have all: "\<forall>t. ordinary_type t \<longrightarrow> ?T t (ClassT ''int'') = Inr True \<longrightarrow>
             ?T t (UnionT [ClassT ''int'', ClassT ''str'']) = Inr True" by simp
  have oi: "ordinary_type (ClassT ''int'')" by simp
  from all [rule_format, OF oi rf [rule_format, OF oi]]
  have "?T (ClassT ''int'') (UnionT [ClassT ''int'', ClassT ''str'']) = Inr True" .
  with ex show ?thesis by simp
qed

end
